theory Spec2Isabelle
  imports Main "HOL-Library.Word"
begin

section \<open>Utilities/Dependencies.h\<close>

text \<open>
  A shallow embedding of the helpers of \<^verbatim>\<open>common/include/Utilities/Dependencies.h\<close>:
  the operators that \<^verbatim>\<open>ImplementEnumOperators\<close> generates for a conforming
  enumeration, the \<^verbatim>\<open>ScopedBool\<close> guard, the size constants and the
  \<^verbatim>\<open>tryDEBUG\<close>/\<^verbatim>\<open>tryDEVEL\<close> preprocessor cascade.
\<close>

subsection \<open>Machine integers\<close>

text \<open>
  The C++ \<^verbatim>\<open>int\<close> is a 32-bit two's complement word, read as an integer by
  \<open>sint\<close> and compared by the signed orders \<open>\<le>s\<close> and \<open><s\<close>. Addition and
  subtraction are the machine's: they wrap around at the ends of the type.
  \<^verbatim>\<open>s64\<close> is the 64-bit signed integer; \<^verbatim>\<open>sptr\<close> is the pointer-sized signed
  integer of Pcsx2Defs.h, 32 bits wide on a 32-bit target and 64 bits wide on a 64-bit one.
\<close>

type_synonym c_int = "32 word"
type_synonym s64 = "64 word"
type_synonym sptr32 = "32 word"
type_synonym sptr64 = "64 word"



subsection \<open>ImplementEnumOperators\<close>

text \<open>
  The macro is instantiated with an enumeration name; the enumeration supplies the two
  enumerators \<^verbatim>\<open>enumName##_FIRST\<close> and \<^verbatim>\<open>enumName##_COUNT\<close> and its underlying
  type. They are the parameters of the model: an enumeration is its underlying type with
  the two enumerators, which are values of that type. The underlying type is \<^verbatim>\<open>int\<close>
  or one of the integer types narrower than \<^verbatim>\<open>int\<close>; an enumeration that fixes no
  underlying type is stored in the width of \<^verbatim>\<open>int\<close> and its enumerators promote to
  \<^verbatim>\<open>int\<close>, so it is the first case. In the comparisons the enumerators are promoted
  to \<^verbatim>\<open>int\<close>: \<open>enumName_FIRST\<close> and \<open>enumName_COUNT\<close> give the promoted values.
\<close>

datatype enumName =
    Enum_int c_int c_int
  | Enum_uchar "8 word" "8 word"
  | Enum_schar "8 word" "8 word"
  | Enum_ushort "16 word" "16 word"
  | Enum_short "16 word" "16 word"

fun enumName_FIRST :: "enumName \<Rightarrow> c_int" where
  "enumName_FIRST (Enum_int first count) = first"
| "enumName_FIRST (Enum_uchar first count) = ucast first"
| "enumName_FIRST (Enum_schar first count) = scast first"
| "enumName_FIRST (Enum_ushort first count) = ucast first"
| "enumName_FIRST (Enum_short first count) = scast first"

fun enumName_COUNT :: "enumName \<Rightarrow> c_int" where
  "enumName_COUNT (Enum_int first count) = count"
| "enumName_COUNT (Enum_uchar first count) = ucast count"
| "enumName_COUNT (Enum_schar first count) = scast count"
| "enumName_COUNT (Enum_ushort first count) = ucast count"
| "enumName_COUNT (Enum_short first count) = scast count"

text \<open>
  A value of the enumeration is given by the \<^verbatim>\<open>int\<close> that \<^verbatim>\<open>(int)src\<close> reads from it.
  The cast \<^verbatim>\<open>(enumName)(i)\<close> converts the \<^verbatim>\<open>int\<close> to the underlying type, which keeps
  the low bits that fit; \<open>to_enumName\<close> gives the value that results, read as an
  \<^verbatim>\<open>int\<close> again.
\<close>

type_synonym enum_value = c_int

fun to_enumName :: "enumName \<Rightarrow> c_int \<Rightarrow> enum_value" where
  "to_enumName (Enum_int _ _) i = i"
| "to_enumName (Enum_uchar _ _) i = ucast (ucast i :: 8 word)"
| "to_enumName (Enum_schar _ _) i = scast (ucast i :: 8 word)"
| "to_enumName (Enum_ushort _ _) i = ucast (ucast i :: 16 word)"
| "to_enumName (Enum_short _ _) i = scast (ucast i :: 16 word)"

text \<open>The least and the greatest value of the underlying type.\<close>

fun underlying_min :: "enumName \<Rightarrow> int" where
  "underlying_min (Enum_int _ _) = - 2147483648"
| "underlying_min (Enum_uchar _ _) = 0"
| "underlying_min (Enum_schar _ _) = - 128"
| "underlying_min (Enum_ushort _ _) = 0"
| "underlying_min (Enum_short _ _) = - 32768"

fun underlying_max :: "enumName \<Rightarrow> int" where
  "underlying_max (Enum_int _ _) = 2147483647"
| "underlying_max (Enum_uchar _ _) = 255"
| "underlying_max (Enum_schar _ _) = 127"
| "underlying_max (Enum_ushort _ _) = 65535"
| "underlying_max (Enum_short _ _) = 32767"

text \<open>The end sentinel: an empty class and its one instance.\<close>

datatype pxEnumEnd_t = pxEnumEnd

text \<open>
  The four step operators take \<^verbatim>\<open>src\<close> by reference. Each model returns the pair of
  the operator's result and the value \<^verbatim>\<open>src\<close> holds afterwards. The sum and the
  difference are computed in \<^verbatim>\<open>int\<close> and cast back to the enumeration.
\<close>

definition op_preinc :: "enumName \<Rightarrow> enum_value \<Rightarrow> enum_value \<times> enum_value" where
  "op_preinc E src = (let src' = to_enumName E (src + 1) in (src', src'))"




text \<open>The comparisons against the sentinel; the sentinel argument is not looked at.\<close>

fun op_lt :: "enumName \<Rightarrow> enum_value \<Rightarrow> pxEnumEnd_t \<Rightarrow> bool" where
  "op_lt E left _ = (left <s enumName_COUNT E)"

fun op_ne :: "enumName \<Rightarrow> enum_value \<Rightarrow> pxEnumEnd_t \<Rightarrow> bool" where
  "op_ne E left _ = (left \<noteq> enumName_COUNT E)"

fun op_eq :: "enumName \<Rightarrow> enum_value \<Rightarrow> pxEnumEnd_t \<Rightarrow> bool" where
  "op_eq E left _ = (left = enumName_COUNT E)"

definition EnumIsValid :: "enumName \<Rightarrow> enum_value \<Rightarrow> bool" where
  "EnumIsValid E id' = ((enumName_FIRST E \<le>s id') \<and> (id' <s enumName_COUNT E))"

text \<open>
  \<^verbatim>\<open>pxAssert\<close> comes from Utilities/Assertions.h, which the header includes and does not
  define. Modelled from the spec: the assertion collaborator is invoked when the asserted
  condition is false, and the assertion does nothing otherwise. The state records how often
  the collaborator was invoked; whatever else the program holds is the record's extension,
  which the assertion leaves alone.
\<close>

record world =
  assertions_fired :: nat

definition pxAssert :: "bool \<Rightarrow> 'a world_scheme \<Rightarrow> 'a world_scheme" where
  "pxAssert cond w = (if cond then w else w\<lparr>assertions_fired := Suc (assertions_fired w)\<rparr>)"

text \<open>\<^verbatim>\<open>EnumAssert\<close> takes \<^verbatim>\<open>id\<close> by value and returns nothing.\<close>

definition EnumAssert :: "enumName \<Rightarrow> enum_value \<Rightarrow> 'a world_scheme \<Rightarrow> 'a world_scheme" where
  "EnumAssert E id' w = pxAssert (EnumIsValid E id') w"

subsection \<open>ScopedBool\<close>

text \<open>
  The guard holds the address of a \<^verbatim>\<open>bool\<close> it does not own. The store maps addresses
  to the booleans they hold. The constructor writes through the reference and keeps its
  address; the destructor writes through the kept address.
\<close>

type_synonym addr = nat
type_synonym store = "addr \<Rightarrow> bool"

record ScopedBool =
  m_boolme :: addr

definition ScopedBool_ctor :: "addr \<Rightarrow> store \<Rightarrow> ScopedBool \<times> store" where
  "ScopedBool_ctor boolme h = (let h' = h(boolme := True) in (\<lparr>m_boolme = boolme\<rparr>, h'))"

definition ScopedBool_dtor :: "ScopedBool \<Rightarrow> store \<Rightarrow> store" where
  "ScopedBool_dtor this h = h(m_boolme this := False)"

text \<open>
  A block \<^verbatim>\<open>{ ScopedBool g(boolme); body }\<close>. The body works on the store and leaves the
  block in one of three ways; C++ runs the destructor of the block's guard on each of them
  and the way the block was left is passed on.
\<close>

datatype exit_path = NormalExit | EarlyReturn | ExceptionThrown

definition ScopedBool_block :: "addr \<Rightarrow> (store \<Rightarrow> exit_path \<times> store) \<Rightarrow> store \<Rightarrow> exit_path \<times> store" where
  "ScopedBool_block boolme body h =
     (let (g, h1) = ScopedBool_ctor boolme h;
          (how, h2) = body h1
      in (how, ScopedBool_dtor g h2))"

subsection \<open>Size constants\<close>

text \<open>
  The initialisers \<^verbatim>\<open>1024 * 1\<close> and \<^verbatim>\<open>1024 * 1024\<close> are products of \<^verbatim>\<open>int\<close>
  literals, converted to the constant's type; every other constant is a product in the
  constant's own type. The source's names start with an underscore (\<^verbatim>\<open>_1kb\<close>); here
  they start with \<open>c\<close>. The \<^verbatim>\<open>sptr\<close> constants are defined at every word length and
  read at 32 and at 64 bits.
\<close>

definition c_1kb :: "'a::len word" where "c_1kb = scast (1024 * 1 :: c_int)"
definition c_4kb :: "'a::len word" where "c_4kb = c_1kb * 4"
definition c_16kb :: "'a::len word" where "c_16kb = c_1kb * 16"
definition c_32kb :: "'a::len word" where "c_32kb = c_1kb * 32"
definition c_64kb :: "'a::len word" where "c_64kb = c_1kb * 64"
definition c_128kb :: "'a::len word" where "c_128kb = c_1kb * 128"
definition c_256kb :: "'a::len word" where "c_256kb = c_1kb * 256"

definition c_1mb :: s64 where "c_1mb = scast (1024 * 1024 :: c_int)"
definition c_8mb :: s64 where "c_8mb = c_1mb * 8"
definition c_16mb :: s64 where "c_16mb = c_1mb * 16"
definition c_32mb :: s64 where "c_32mb = c_1mb * 32"
definition c_64mb :: s64 where "c_64mb = c_1mb * 64"
definition c_256mb :: s64 where "c_256mb = c_1mb * 256"
definition c_1gb :: s64 where "c_1gb = c_1mb * 1024"
definition c_4gb :: s64 where "c_4gb = c_1gb * 4"

subsection \<open>The debug-gated try/catch macros\<close>

text \<open>
  The preprocessor's macro table after lines 26 to 40 of the header, as a function of the
  two build flags. A macro is its parameter list (none for an object-like macro) and its
  replacement list. A \<^verbatim>\<open>#define\<close> enters the macro under its name.
\<close>

record macro =
  macro_params :: "string list option"
  macro_body :: "string list"

type_synonym macro_table = "string \<rightharpoonup> macro"

definition define_macro :: "string \<Rightarrow> string list option \<Rightarrow> string list \<Rightarrow> macro_table \<Rightarrow> macro_table" where
  "define_macro name ps body t = t(name \<mapsto> \<lparr>macro_params = ps, macro_body = body\<rparr>)"

definition try_catch_macros :: "bool \<Rightarrow> bool \<Rightarrow> macro_table" where
  "try_catch_macros PCSX2_DEBUG PCSX2_DEVBUILD =
     (let t1 =
        (if PCSX2_DEBUG
         then define_macro ''catchDEBUG'' (Some [''clause'']) [''catch'', ''('', ''clause'', '')'']
               (define_macro ''tryDEBUG'' None [''try''] Map.empty)
         else define_macro ''catchDEBUG'' (Some [''clause'']) [''if'', ''('', ''false'', '')'']
               (define_macro ''tryDEBUG'' None [''if'', ''('', ''true'', '')''] Map.empty))
      in
        (if PCSX2_DEVBUILD \<or> PCSX2_DEBUG
         then define_macro ''catchDEVEL'' None [''catch'', ''('', ''clause'', '')'']
               (define_macro ''tryDEVEL'' None [''try''] t1)
         else define_macro ''catchDEBUG'' (Some [''clause'']) [''if'', ''('', ''false'', '')'']
               (define_macro ''tryDEBUG'' None [''if'', ''('', ''true'', '')''] t1)))"

section \<open>Bounded enumerations\<close>

subsection \<open>Integers read from words\<close>

lemma sint_eq_iff: "sint (a :: c_int) = sint b \<longleftrightarrow> a = b"
  by (auto intro: signed_word_eqI)

lemma sint_succ: "sint (v :: c_int) \<noteq> 2147483647 \<Longrightarrow> sint (v + 1) = sint v + 1"
proof -
  assume a: "sint v \<noteq> 2147483647"
  have "sint v < 2 ^ 31" using sint_lt [of v] by simp
  moreover have "- (2 ^ 31) \<le> sint v" using sint_ge [of v] by simp
  ultimately show ?thesis using a
    by (simp add: sint_word_ariths signed_take_bit_int_eq_self)
qed


lemma sint_nonneg_uint: "0 \<le> sint (i :: c_int) \<Longrightarrow> uint i = sint i"
proof -
  assume a: "0 \<le> sint i"
  have "sint i < 2 ^ 31" using sint_lt [of i] by simp
  then have "sint i < 2 ^ 32" by simp
  with a have "take_bit 32 (sint i) = sint i" by (rule take_bit_int_eq_self)
  then show ?thesis by (simp add: uint_sint)
qed

lemma sint_ucast8: "sint (ucast (w :: 8 word) :: c_int) = uint w"
proof -
  have e: "uint (ucast w :: c_int) = uint w"
    by (rule uint_up_ucast) (simp add: is_up)
  have "uint w < 2 ^ 8" using uint_lt2p [of w] by simp
  then have "uint w < 2 ^ 31" by simp
  moreover have "(- (2 ^ 31) :: int) \<le> 0" by simp
  then have "- (2 ^ 31) \<le> uint w" using uint_ge_0 [of w] by (rule order_trans)
  ultimately have "signed_take_bit 31 (uint w) = uint w"
    by (simp only: signed_take_bit_int_eq_self)
  with e show ?thesis by (simp add: sint_uint)
qed

lemma sint_ucast16: "sint (ucast (w :: 16 word) :: c_int) = uint w"
proof -
  have e: "uint (ucast w :: c_int) = uint w"
    by (rule uint_up_ucast) (simp add: is_up)
  have "uint w < 2 ^ 16" using uint_lt2p [of w] by simp
  then have "uint w < 2 ^ 31" by simp
  moreover have "(- (2 ^ 31) :: int) \<le> 0" by simp
  then have "- (2 ^ 31) \<le> uint w" using uint_ge_0 [of w] by (rule order_trans)
  ultimately have "signed_take_bit 31 (uint w) = uint w"
    by (simp only: signed_take_bit_int_eq_self)
  with e show ?thesis by (simp add: sint_uint)
qed

lemma sint_scast8: "sint (scast (w :: 8 word) :: c_int) = sint w"
  by (rule sint_up_scast) (simp add: is_up)

lemma sint_scast16: "sint (scast (w :: 16 word) :: c_int) = sint w"
  by (rule sint_up_scast) (simp add: is_up)

lemma ucast8_id: "0 \<le> sint (i :: c_int) \<Longrightarrow> sint i \<le> 255 \<Longrightarrow> ucast (ucast i :: 8 word) = i"
proof -
  assume a: "0 \<le> sint i" "sint i \<le> 255"
  then have u: "uint i = sint i" by (simp add: sint_nonneg_uint)
  have "uint (ucast (ucast i :: 8 word) :: c_int) = uint (ucast i :: 8 word)"
    by (rule uint_up_ucast) (simp add: is_up)
  also have "\<dots> = take_bit 8 (uint i)" by (simp add: unsigned_ucast_eq)
  also have "\<dots> = uint i" using a u by (simp add: take_bit_int_eq_self)
  finally show ?thesis by (rule word_uint_eqI)
qed

lemma ucast16_id: "0 \<le> sint (i :: c_int) \<Longrightarrow> sint i \<le> 65535 \<Longrightarrow> ucast (ucast i :: 16 word) = i"
proof -
  assume a: "0 \<le> sint i" "sint i \<le> 65535"
  then have u: "uint i = sint i" by (simp add: sint_nonneg_uint)
  have "uint (ucast (ucast i :: 16 word) :: c_int) = uint (ucast i :: 16 word)"
    by (rule uint_up_ucast) (simp add: is_up)
  also have "\<dots> = take_bit 16 (uint i)" by (simp add: unsigned_ucast_eq)
  also have "\<dots> = uint i" using a u by (simp add: take_bit_int_eq_self)
  finally show ?thesis by (rule word_uint_eqI)
qed

lemma scast8_id: "- 128 \<le> sint (i :: c_int) \<Longrightarrow> sint i \<le> 127 \<Longrightarrow> scast (ucast i :: 8 word) = i"
proof -
  assume a: "- 128 \<le> sint i" "sint i \<le> 127"
  have "sint (scast (ucast i :: 8 word) :: c_int) = sint (ucast i :: 8 word)"
    by (rule sint_scast8)
  also have "\<dots> = signed_take_bit 7 (take_bit 8 (uint i))"
    by (simp add: sint_uint unsigned_ucast_eq)
  also have "\<dots> = signed_take_bit 7 (uint i)"
    by (simp add: signed_take_bit_take_bit)
  also have "\<dots> = signed_take_bit 7 (signed_take_bit 31 (uint i))"
    by simp
  also have "\<dots> = signed_take_bit 7 (sint i)" by (simp add: sint_uint)
  also have "\<dots> = sint i" using a by (simp add: signed_take_bit_int_eq_self)
  finally show ?thesis by (rule signed_word_eqI)
qed

lemma scast16_id: "- 32768 \<le> sint (i :: c_int) \<Longrightarrow> sint i \<le> 32767 \<Longrightarrow> scast (ucast i :: 16 word) = i"
proof -
  assume a: "- 32768 \<le> sint i" "sint i \<le> 32767"
  have "sint (scast (ucast i :: 16 word) :: c_int) = sint (ucast i :: 16 word)"
    by (rule sint_scast16)
  also have "\<dots> = signed_take_bit 15 (take_bit 16 (uint i))"
    by (simp add: sint_uint unsigned_ucast_eq)
  also have "\<dots> = signed_take_bit 15 (uint i)"
    by (simp add: signed_take_bit_take_bit)
  also have "\<dots> = signed_take_bit 15 (signed_take_bit 31 (uint i))"
    by simp
  also have "\<dots> = signed_take_bit 15 (sint i)" by (simp add: sint_uint)
  also have "\<dots> = sint i" using a by (simp add: signed_take_bit_int_eq_self)
  finally show ?thesis by (rule signed_word_eqI)
qed

lemma uint8_range: "0 \<le> uint (w :: 8 word) \<and> uint w \<le> 255"
  using uint_lt2p [of w] by simp

lemma uint16_range: "0 \<le> uint (w :: 16 word) \<and> uint w \<le> 65535"
  using uint_lt2p [of w] by simp

lemma sint8_range: "- 128 \<le> sint (w :: 8 word) \<and> sint w \<le> 127"
  using sint_lt [of w] sint_ge [of w] by simp

lemma sint16_range: "- 32768 \<le> sint (w :: 16 word) \<and> sint w \<le> 32767"
  using sint_lt [of w] sint_ge [of w] by simp

lemma sint32_range: "- 2147483648 \<le> sint (w :: c_int) \<and> sint w \<le> 2147483647"
  using sint_lt [of w] sint_ge [of w] by simp

lemma to_enumName_range:
  "underlying_min E \<le> sint (to_enumName E i) \<and> sint (to_enumName E i) \<le> underlying_max E"
  by (cases E)
    (simp_all add: sint_ucast8 sint_ucast16 sint_scast8 sint_scast16
      uint8_range uint16_range sint8_range sint16_range sint32_range)

lemma to_enumName_id:
  "underlying_min E \<le> sint i \<Longrightarrow> sint i \<le> underlying_max E \<Longrightarrow> to_enumName E i = i"
  by (cases E) (simp_all add: ucast8_id ucast16_id scast8_id scast16_id)

lemma COUNT_range:
  "underlying_min E \<le> sint (enumName_COUNT E) \<and> sint (enumName_COUNT E) \<le> underlying_max E"
  by (cases E)
    (simp_all add: sint_ucast8 sint_ucast16 sint_scast8 sint_scast16
      uint8_range uint16_range sint8_range sint16_range sint32_range)

lemma FIRST_range:
  "underlying_min E \<le> sint (enumName_FIRST E) \<and> sint (enumName_FIRST E) \<le> underlying_max E"
  by (cases E)
    (simp_all add: sint_ucast8 sint_ucast16 sint_scast8 sint_scast16
      uint8_range uint16_range sint8_range sint16_range sint32_range)

lemma to_enumName_wraps:
  "sint v = underlying_max E \<Longrightarrow> sint (to_enumName E (v + 1)) = underlying_min E"
proof (cases E)
  case (Enum_int f c)
  assume "sint v = underlying_max E"
  with Enum_int have "sint v = sint (2147483647 :: c_int)" by simp
  then have "v = 2147483647" by (rule signed_word_eqI)
  with Enum_int show ?thesis by simp
next
  case (Enum_uchar f c)
  assume "sint v = underlying_max E"
  with Enum_uchar have "sint v = sint (255 :: c_int)" by simp
  then have "v = 255" by (rule signed_word_eqI)
  with Enum_uchar show ?thesis by simp
next
  case (Enum_schar f c)
  assume "sint v = underlying_max E"
  with Enum_schar have "sint v = sint (127 :: c_int)" by simp
  then have "v = 127" by (rule signed_word_eqI)
  with Enum_schar show ?thesis by simp
next
  case (Enum_ushort f c)
  assume "sint v = underlying_max E"
  with Enum_ushort have "sint v = sint (65535 :: c_int)" by simp
  then have "v = 65535" by (rule signed_word_eqI)
  with Enum_ushort show ?thesis by simp
next
  case (Enum_short f c)
  assume "sint v = underlying_max E"
  with Enum_short have "sint v = sint (32767 :: c_int)" by simp
  then have "v = 32767" by (rule signed_word_eqI)
  with Enum_short show ?thesis by simp
qed

lemma underlying_bounds:
  "- 2147483648 \<le> underlying_min E \<and> underlying_max E \<le> 2147483647"
  by (cases E) simp_all

lemma step_in_range:
  "underlying_min E \<le> sint v \<Longrightarrow> sint v < underlying_max E \<Longrightarrow>
   snd (op_preinc E v) = v + 1 \<and> sint (v + 1) = sint v + 1"
proof -
  assume a: "underlying_min E \<le> sint v" "sint v < underlying_max E"
  have "underlying_max E \<le> 2147483647" using underlying_bounds [of E] by simp
  with a have "sint v \<noteq> 2147483647" by simp
  then have s: "sint (v + 1) = sint v + 1" by (rule sint_succ)
  with a have "underlying_min E \<le> sint (v + 1)" "sint (v + 1) \<le> underlying_max E" by simp_all
  then have "to_enumName E (v + 1) = v + 1" by (rule to_enumName_id)
  with s show ?thesis by (simp add: op_preinc_def Let_def)
qed






subsection \<open>Iterating an enumeration\<close>

text \<open>
  The header defines the operators; the loops over an enumeration are written by its users.
  The loop that steps until the value equals \<open>COUNT\<close> ends from every start:
  \<open>steps_to_end\<close> bounds the steps it still takes. A value above \<open>COUNT\<close> climbs to the
  top of the underlying type, wraps to its bottom and climbs to \<open>COUNT\<close>.
\<close>

definition steps_to_end :: "enumName \<Rightarrow> enum_value \<Rightarrow> nat" where
  "steps_to_end E v =
     (if \<not> (underlying_min E \<le> sint v \<and> sint v \<le> underlying_max E) then 8589934594
      else if sint (enumName_COUNT E) < sint v then 4294967297 + nat (underlying_max E - sint v)
      else nat (sint (enumName_COUNT E) - sint v))"

lemma steps_to_end_decreases:
  "v \<noteq> enumName_COUNT E \<Longrightarrow> steps_to_end E (snd (op_preinc E v)) < steps_to_end E v"
proof -
  assume ne: "v \<noteq> enumName_COUNT E"
  let ?n = "snd (op_preinc E v)"
  have n: "?n = to_enumName E (v + 1)" by (simp add: op_preinc_def Let_def)
  have nr: "underlying_min E \<le> sint ?n" "sint ?n \<le> underlying_max E"
    using to_enumName_range [of E "v + 1"] n by simp_all
  have b: "- 2147483648 \<le> underlying_min E" "underlying_max E \<le> 2147483647"
    using underlying_bounds [of E] by simp_all
  have c: "underlying_min E \<le> sint (enumName_COUNT E)" "sint (enumName_COUNT E) \<le> underlying_max E"
    using COUNT_range [of E] by simp_all
  have small: "steps_to_end E ?n \<le> 8589934593"
    unfolding steps_to_end_def using nr b c by (auto simp: nat_le_iff)
  show ?thesis
  proof (cases "underlying_min E \<le> sint v \<and> sint v \<le> underlying_max E")
    case False
    then have "steps_to_end E v = 8589934594" by (simp add: steps_to_end_def)
    with small show ?thesis by simp
  next
    case True
    show ?thesis
    proof (cases "sint (enumName_COUNT E) < sint v")
      case above: True
      then have fv: "steps_to_end E v = 4294967297 + nat (underlying_max E - sint v)"
        using True by (simp add: steps_to_end_def)
      show ?thesis
      proof (cases "sint v = underlying_max E")
        case atmax: True
        then have "sint (to_enumName E (v + 1)) = underlying_min E" by (rule to_enumName_wraps)
        with n have "sint ?n = underlying_min E" by simp
        with nr b c have "steps_to_end E ?n = nat (sint (enumName_COUNT E) - underlying_min E)"
          by (simp add: steps_to_end_def)
        with b c fv show ?thesis by simp
      next
        case False
        with True have "sint v < underlying_max E" by simp
        with True have st: "?n = v + 1 \<and> sint (v + 1) = sint v + 1" by (simp add: step_in_range)
        with above nr have "steps_to_end E ?n = 4294967297 + nat (underlying_max E - (sint v + 1))"
          by (simp add: steps_to_end_def)
        with fv \<open>sint v < underlying_max E\<close> show ?thesis by simp
      qed
    next
      case False
      moreover have "sint v \<noteq> sint (enumName_COUNT E)" using ne by (auto dest: signed_word_eqI)
      ultimately have lt: "sint v < sint (enumName_COUNT E)" by simp
      with c have "sint v < underlying_max E" by simp
      with True have st: "?n = v + 1 \<and> sint (v + 1) = sint v + 1" by (simp add: step_in_range)
      with lt nr have "steps_to_end E ?n = nat (sint (enumName_COUNT E) - (sint v + 1))"
        by (simp add: steps_to_end_def)
      moreover have "steps_to_end E v = nat (sint (enumName_COUNT E) - sint v)"
        using True False by (simp add: steps_to_end_def)
      ultimately show ?thesis using lt by simp
    qed
  qed
qed

lemma step_lt_increases:
  "sint v < sint (enumName_COUNT E) \<Longrightarrow> sint v < sint (snd (op_preinc E v))"
proof -
  assume lt: "sint v < sint (enumName_COUNT E)"
  have c: "sint (enumName_COUNT E) \<le> underlying_max E" using COUNT_range [of E] by simp
  show ?thesis
  proof (cases "underlying_min E \<le> sint v")
    case True
    moreover from lt c have "sint v < underlying_max E" by simp
    ultimately have "snd (op_preinc E v) = v + 1 \<and> sint (v + 1) = sint v + 1"
      by (rule step_in_range)
    then show ?thesis by simp
  next
    case False
    moreover have "underlying_min E \<le> sint (snd (op_preinc E v))"
      using to_enumName_range [of E "v + 1"] by (simp add: op_preinc_def Let_def)
    ultimately show ?thesis by simp
  qed
qed

text \<open>
  Modelled from the spec: the iteration protocol (start at a value, test it against the end,
  step with increment), written with the operators above. Each of the three functions
  returns the values the loop body is run on, in order.

  \<^verbatim>\<open>for (enumName v = start; !(v == pxEnumEnd); ++v) visit(v);\<close>
\<close>

function iterate_until_end :: "enumName \<Rightarrow> enum_value \<Rightarrow> enum_value list" where
  "iterate_until_end E v =
     (if op_eq E v pxEnumEnd then [] else v # iterate_until_end E (snd (op_preinc E v)))"
  by pat_completeness auto
termination
proof (relation "measure (\<lambda>(E, v). steps_to_end E v)")
  show "wf (measure (\<lambda>(E, v). steps_to_end E v))" by simp
next
  fix E :: enumName and v :: enum_value
  assume "\<not> op_eq E v pxEnumEnd"
  then have "v \<noteq> enumName_COUNT E" by simp
  then have "steps_to_end E (snd (op_preinc E v)) < steps_to_end E v"
    by (rule steps_to_end_decreases)
  then show "((E, snd (op_preinc E v)), (E, v)) \<in> measure (\<lambda>(E, v). steps_to_end E v)"
    by simp
qed

declare iterate_until_end.simps [simp del]

text \<open>\<^verbatim>\<open>for (enumName v = start; v < pxEnumEnd; ++v) visit(v);\<close>\<close>

function iterate_lt_sentinel :: "enumName \<Rightarrow> enum_value \<Rightarrow> enum_value list" where
  "iterate_lt_sentinel E v =
     (if op_lt E v pxEnumEnd then v # iterate_lt_sentinel E (snd (op_preinc E v)) else [])"
  by pat_completeness auto
termination
proof (relation "measure (\<lambda>(E, v). nat (sint (enumName_COUNT E) - sint v))")
  show "wf (measure (\<lambda>(E, v). nat (sint (enumName_COUNT E) - sint v)))" by simp
next
  fix E :: enumName and v :: enum_value
  assume "op_lt E v pxEnumEnd"
  then have lt: "sint v < sint (enumName_COUNT E)" by (simp add: word_sless_alt)
  then have "sint v < sint (snd (op_preinc E v))" by (rule step_lt_increases)
  with lt show "((E, snd (op_preinc E v)), (E, v))
      \<in> measure (\<lambda>(E, v). nat (sint (enumName_COUNT E) - sint v))"
    by simp
qed

declare iterate_lt_sentinel.simps [simp del]

text \<open>\<^verbatim>\<open>for (enumName v = start; (int)v < enumName_COUNT; ++v) visit(v);\<close>\<close>

function iterate_lt_explicit :: "enumName \<Rightarrow> enum_value \<Rightarrow> enum_value list" where
  "iterate_lt_explicit E v =
     (if v <s enumName_COUNT E then v # iterate_lt_explicit E (snd (op_preinc E v)) else [])"
  by pat_completeness auto
termination
proof (relation "measure (\<lambda>(E, v). nat (sint (enumName_COUNT E) - sint v))")
  show "wf (measure (\<lambda>(E, v). nat (sint (enumName_COUNT E) - sint v)))" by simp
next
  fix E :: enumName and v :: enum_value
  assume "v <s enumName_COUNT E"
  then have lt: "sint v < sint (enumName_COUNT E)" by (simp add: word_sless_alt)
  then have "sint v < sint (snd (op_preinc E v))" by (rule step_lt_increases)
  with lt show "((E, snd (op_preinc E v)), (E, v))
      \<in> measure (\<lambda>(E, v). nat (sint (enumName_COUNT E) - sint v))"
    by simp
qed

declare iterate_lt_explicit.simps [simp del]

subsection \<open>Validity\<close>

text \<open>
  C1. For every enumeration and every integer \<open>k\<close>, \<^verbatim>\<open>EnumIsValid(k)\<close> is true exactly
  when \<open>FIRST \<le> k < COUNT\<close> as integers; it is false at the sentinel value \<open>COUNT\<close>
  itself and at every \<open>k\<close> below \<open>FIRST\<close>.
\<close>

theorem EnumIsValid_iff_in_range:
  "(EnumIsValid E k \<longleftrightarrow>
      sint (enumName_FIRST E) \<le> sint k \<and> sint k < sint (enumName_COUNT E))
   \<and> \<not> EnumIsValid E (enumName_COUNT E)
   \<and> (sint k < sint (enumName_FIRST E) \<longrightarrow> \<not> EnumIsValid E k)"
  by (auto simp: EnumIsValid_def word_sle_eq word_sless_alt)

theorem EnumIsValid_iff_in_range_witness:
  "sint (-1 :: c_int) < sint (enumName_FIRST (Enum_int 0 3))
   \<and> \<not> EnumIsValid (Enum_int 0 3) (-1)
   \<and> \<not> EnumIsValid (Enum_int 0 3) 3
   \<and> EnumIsValid (Enum_int 0 3) 0
   \<and> EnumIsValid (Enum_int 0 3) 1
   \<and> EnumIsValid (Enum_int 0 3) 2"
  using EnumIsValid_iff_in_range [of "Enum_int 0 3" "-1"]
    EnumIsValid_iff_in_range [of "Enum_int 0 3" 0]
    EnumIsValid_iff_in_range [of "Enum_int 0 3" 1]
    EnumIsValid_iff_in_range [of "Enum_int 0 3" 2]
  by simp

subsection \<open>Stepping\<close>




subsection \<open>Comparing against the sentinel\<close>

lemma iterate_lt_same: "iterate_lt_sentinel E v = iterate_lt_explicit E v"
proof (induction E v rule: iterate_lt_sentinel.induct)
  case (1 E v)
  show ?case
  proof (cases "v <s enumName_COUNT E")
    case True
    then have "op_lt E v pxEnumEnd" by simp
    then have "iterate_lt_sentinel E (snd (op_preinc E v)) = iterate_lt_explicit E (snd (op_preinc E v))"
      by (rule "1.IH")
    with True show ?thesis
      by (simp add: iterate_lt_sentinel.simps [of E v] iterate_lt_explicit.simps [of E v])
  next
    case False
    then show ?thesis
      by (simp add: iterate_lt_sentinel.simps [of E v] iterate_lt_explicit.simps [of E v])
  qed
qed

text \<open>
  C3. For every enumeration value \<open>v\<close>, \<^verbatim>\<open>v < pxEnumEnd\<close> is \<open>v < COUNT\<close>,
  \<^verbatim>\<open>v == pxEnumEnd\<close> is \<open>v = COUNT\<close> and \<^verbatim>\<open>v != pxEnumEnd\<close> is \<open>v \<noteq> COUNT\<close>, as
  integers; and the loop conditioned on \<^verbatim>\<open>v < pxEnumEnd\<close> visits the same values as the
  loop conditioned on \<^verbatim>\<open>(int)v < enumName_COUNT\<close>, from every start.
\<close>

theorem sentinel_comparisons_are_explicit:
  "op_lt E v pxEnumEnd = (sint v < sint (enumName_COUNT E))
   \<and> op_eq E v pxEnumEnd = (sint v = sint (enumName_COUNT E))
   \<and> op_ne E v pxEnumEnd = (sint v \<noteq> sint (enumName_COUNT E))
   \<and> iterate_lt_sentinel E v = iterate_lt_explicit E v"
  by (simp add: word_sless_alt sint_eq_iff iterate_lt_same)

subsection \<open>Iteration\<close>

lemma iterate_until_end_upto:
  "underlying_min E \<le> sint v \<Longrightarrow> sint v \<le> sint (enumName_COUNT E) \<Longrightarrow>
   map sint (iterate_until_end E v) = [sint v .. sint (enumName_COUNT E) - 1]"
proof (induction E v rule: iterate_until_end.induct)
  case (1 E v)
  show ?case
  proof (cases "v = enumName_COUNT E")
    case True
    then show ?thesis by (subst iterate_until_end.simps) simp
  next
    case False
    then have ne: "sint v \<noteq> sint (enumName_COUNT E)" by (simp add: sint_eq_iff)
    with "1.prems" have lt: "sint v < sint (enumName_COUNT E)" by simp
    with COUNT_range [of E] have "sint v < underlying_max E" by simp
    with "1.prems" have nx: "snd (op_preinc E v) = v + 1 \<and> sint (v + 1) = sint v + 1"
      by (simp add: step_in_range)
    have "\<not> op_eq E v pxEnumEnd" using False by simp
    moreover have "underlying_min E \<le> sint (snd (op_preinc E v))"
      using "1.prems" nx by simp
    moreover have "sint (snd (op_preinc E v)) \<le> sint (enumName_COUNT E)"
      using lt nx by simp
    ultimately have "map sint (iterate_until_end E (snd (op_preinc E v))) =
          [sint (snd (op_preinc E v)) .. sint (enumName_COUNT E) - 1]"
      by (rule "1.IH")
    then have "map sint (iterate_until_end E v)
        = sint v # [sint v + 1 .. sint (enumName_COUNT E) - 1]"
      using False nx by (simp add: iterate_until_end.simps [of E v])
    also have "\<dots> = [sint v .. sint (enumName_COUNT E) - 1]"
      using lt by (simp add: upto_rec1)
    finally show ?thesis .
  qed
qed

lemma iterate_A_B_C: "iterate_until_end (Enum_int 0 3) 0 = [0, 1, 2]"
  by (simp add: iterate_until_end.simps [of _ 0] iterate_until_end.simps [of _ 1]
      iterate_until_end.simps [of _ 2] iterate_until_end.simps [of _ 3] op_preinc_def)

text \<open>
  C4. For every enumeration with \<open>FIRST \<le> COUNT\<close>, the loop that starts at \<open>FIRST\<close> and
  steps with \<^verbatim>\<open>++\<close> until the value compares \<^verbatim>\<open>== pxEnumEnd\<close> visits the integers
  \<open>FIRST, FIRST + 1, \<dots>, COUNT - 1\<close> in this order: \<open>COUNT - FIRST\<close> values, each once.
  When \<open>FIRST = COUNT\<close> it visits none.
\<close>

theorem iterate_visits_each_member_once:
  "sint (enumName_FIRST E) \<le> sint (enumName_COUNT E) \<Longrightarrow>
     map sint (iterate_until_end E (enumName_FIRST E))
       = [sint (enumName_FIRST E) .. sint (enumName_COUNT E) - 1]
     \<and> length (iterate_until_end E (enumName_FIRST E))
       = nat (sint (enumName_COUNT E) - sint (enumName_FIRST E))
     \<and> distinct (iterate_until_end E (enumName_FIRST E))
     \<and> (enumName_FIRST E = enumName_COUNT E \<longrightarrow> iterate_until_end E (enumName_FIRST E) = [])"
proof -
  assume le: "sint (enumName_FIRST E) \<le> sint (enumName_COUNT E)"
  let ?xs = "iterate_until_end E (enumName_FIRST E)"
  have "underlying_min E \<le> sint (enumName_FIRST E)" using FIRST_range [of E] by simp
  then have m: "map sint ?xs = [sint (enumName_FIRST E) .. sint (enumName_COUNT E) - 1]"
    using le by (rule iterate_until_end_upto)
  have "length (map sint ?xs) = nat (sint (enumName_COUNT E) - sint (enumName_FIRST E))"
    using le by (simp only: m length_upto)
  then have l: "length ?xs = nat (sint (enumName_COUNT E) - sint (enumName_FIRST E))"
    by simp
  have "distinct (map sint ?xs)" by (simp only: m distinct_upto)
  then have d: "distinct ?xs" by (simp add: distinct_map)
  have e: "enumName_FIRST E = enumName_COUNT E \<longrightarrow> ?xs = []"
    by (subst iterate_until_end.simps) simp
  from m l d e show ?thesis by blast
qed

theorem iterate_visits_each_member_once_witness:
  "sint (enumName_FIRST (Enum_int 0 3)) \<le> sint (enumName_COUNT (Enum_int 0 3))
   \<and> iterate_until_end (Enum_int 0 3) 0 = [0, 1, 2]
   \<and> map sint (iterate_until_end (Enum_int 0 3) 0) = [0, 1, 2]
   \<and> length (iterate_until_end (Enum_int 0 3) 0) = 3"
  using iterate_visits_each_member_once [of "Enum_int 0 3"]
  by (simp add: iterate_A_B_C)

subsection \<open>Asserting validity\<close>

text \<open>
  C9. \<^verbatim>\<open>EnumAssert(v)\<close> invokes the assertion collaborator exactly when
  \<^verbatim>\<open>EnumIsValid(v)\<close> is false, once, and changes nothing else: with a valid \<open>v\<close> the
  state is the one it started from, and the rest of the state is left as it was either way.
  The argument is passed by value.
\<close>

theorem EnumAssert_fires_iff_invalid:
  "EnumAssert E v w =
     (if EnumIsValid E v then w else w\<lparr>assertions_fired := Suc (assertions_fired w)\<rparr>)
   \<and> (assertions_fired (EnumAssert E v w) = Suc (assertions_fired w)) = (\<not> EnumIsValid E v)
   \<and> (assertions_fired (EnumAssert E v w) = assertions_fired w) = EnumIsValid E v
   \<and> world.more (EnumAssert E v w) = world.more w"
  by (simp add: EnumAssert_def pxAssert_def)

section \<open>The scoped flag guard\<close>

text \<open>
  C5. Right after a guard is constructed on \<open>V\<close>, \<open>V\<close> is true. After the guard's block is
  left, \<open>V\<close> is false, whatever the body did and whichever way it left the block (normally,
  by an early return or by an exception), and the way it left is passed on. With two nested
  guards on the same \<open>V\<close>: \<open>V\<close> is true once both are constructed, false after the inner one
  is destroyed and false after the outer one is destroyed.
\<close>

theorem ScopedBool_sets_then_clears:
  "snd (ScopedBool_ctor V h) V
   \<and> m_boolme (fst (ScopedBool_ctor V h)) = V
   \<and> \<not> snd (ScopedBool_block V body h) V
   \<and> fst (ScopedBool_block V body h) = fst (body (snd (ScopedBool_ctor V h)))
   \<and> (case ScopedBool_ctor V h of (g1, h1) \<Rightarrow>
        case ScopedBool_ctor V h1 of (g2, h2) \<Rightarrow>
          h2 V \<and> \<not> ScopedBool_dtor g2 h2 V \<and> \<not> ScopedBool_dtor g1 (ScopedBool_dtor g2 h2) V)
   \<and> \<not> snd (ScopedBool_block V (ScopedBool_block V inner) h) V"
  by (simp add: ScopedBool_ctor_def ScopedBool_dtor_def ScopedBool_block_def Let_def
      split: prod.splits)

text \<open>
  C10. The destructor writes false through the kept address whatever the target holds: the
  target is false afterwards, also when it was set to true again after the construction
  and also when it was true before the guard was constructed. The store after the
  destructor does not depend on the value the target held, so no earlier value is restored.
\<close>

theorem ScopedBool_dtor_writes_false_unconditionally:
  "\<not> ScopedBool_dtor g h (m_boolme g)
   \<and> \<not> ScopedBool_dtor g (h(m_boolme g := True)) (m_boolme g)
   \<and> (case ScopedBool_ctor V (h(V := True)) of (g', h1) \<Rightarrow> \<not> ScopedBool_dtor g' h1 V)
   \<and> (case ScopedBool_ctor V h of (g', h1) \<Rightarrow> \<not> ScopedBool_dtor g' (h1(V := True)) V)
   \<and> ScopedBool_dtor g h = ScopedBool_dtor g (h(m_boolme g := b))"
  by (simp add: ScopedBool_ctor_def ScopedBool_dtor_def Let_def)

section \<open>Size constants\<close>

text \<open>
  C8. The constants have the declared values: \<open>_1kb = 1024\<close>, \<open>_16kb = 16384\<close>,
  \<open>_1mb = 1024 * 1024\<close>, \<open>_256mb = 268435456\<close>, \<open>_1gb = 1024 * _1mb\<close>,
  \<open>_4gb = 4 * 1024 * 1024 * 1024\<close> and \<open>_1gb + _1gb + _1gb + _1gb = _4gb\<close>, with no
  wrap-around in the type that holds them: the constants up to \<open>256 * 1024\<close> in the
  pointer-sized signed integer (at 32 and at 64 bits), those from \<open>_1mb\<close> to \<open>_4gb\<close> in
  the 64-bit signed integer.
\<close>

theorem size_constants_values:
  "sint (c_1kb :: sptr32) = 1024 \<and> sint (c_1kb :: sptr64) = 1024
   \<and> sint (c_4kb :: sptr32) = 4 * 1024 \<and> sint (c_4kb :: sptr64) = 4 * 1024
   \<and> sint (c_16kb :: sptr32) = 16384 \<and> sint (c_16kb :: sptr64) = 16384
   \<and> sint (c_32kb :: sptr32) = 32 * 1024 \<and> sint (c_32kb :: sptr64) = 32 * 1024
   \<and> sint (c_64kb :: sptr32) = 64 * 1024 \<and> sint (c_64kb :: sptr64) = 64 * 1024
   \<and> sint (c_128kb :: sptr32) = 128 * 1024 \<and> sint (c_128kb :: sptr64) = 128 * 1024
   \<and> sint (c_256kb :: sptr32) = 256 * 1024 \<and> sint (c_256kb :: sptr64) = 256 * 1024
   \<and> sint c_1mb = 1024 * 1024
   \<and> sint c_8mb = 8 * sint c_1mb \<and> sint c_16mb = 16 * sint c_1mb
   \<and> sint c_32mb = 32 * sint c_1mb \<and> sint c_64mb = 64 * sint c_1mb
   \<and> sint c_256mb = 268435456
   \<and> sint c_1gb = 1024 * sint c_1mb
   \<and> sint c_4gb = 4 * 1024 * 1024 * 1024
   \<and> c_1gb + c_1gb + c_1gb + c_1gb = c_4gb
   \<and> sint (c_1gb + c_1gb + c_1gb + c_1gb) = 4 * sint c_1gb
   \<and> size (c_256kb :: sptr32) = 32 \<and> size (c_256kb :: sptr64) = 64
   \<and> size c_1mb = 64 \<and> size c_4gb = 64"
  by (simp add: c_1kb_def c_4kb_def c_16kb_def c_32kb_def c_64kb_def c_128kb_def c_256kb_def
      c_1mb_def c_8mb_def c_16mb_def c_32mb_def c_64mb_def c_256mb_def c_1gb_def c_4gb_def
      word_size)

section \<open>The debug-gated try/catch macros\<close>

text \<open>
  C7 at the configuration with neither flag set: the header leaves \<^verbatim>\<open>tryDEVEL\<close> and
  \<^verbatim>\<open>catchDEVEL\<close> undefined there, since its second \<^verbatim>\<open>#else\<close> branch defines
  \<^verbatim>\<open>tryDEBUG\<close> and \<^verbatim>\<open>catchDEBUG\<close> once more. Where \<^verbatim>\<open>catchDEVEL\<close> is defined it
  is an object-like macro, so \<^verbatim>\<open>clause\<close> in its replacement list is not a parameter.
  The debug pair is as the claim says in every configuration.
\<close>

theorem tryDEVEL_undefined_without_flags:
  "try_catch_macros False False ''tryDEVEL'' = None
   \<and> try_catch_macros False False ''catchDEVEL'' = None
   \<and> try_catch_macros False False ''tryDEBUG''
       = Some \<lparr>macro_params = None, macro_body = [''if'', ''('', ''true'', '')'']\<rparr>
   \<and> try_catch_macros False False ''catchDEBUG''
       = Some \<lparr>macro_params = Some [''clause''], macro_body = [''if'', ''('', ''false'', '')'']\<rparr>
   \<and> try_catch_macros True False ''catchDEBUG''
       = Some \<lparr>macro_params = Some [''clause''], macro_body = [''catch'', ''('', ''clause'', '')'']\<rparr>
   \<and> try_catch_macros True False ''catchDEVEL''
       = Some \<lparr>macro_params = None, macro_body = [''catch'', ''('', ''clause'', '')'']\<rparr>
   \<and> try_catch_macros False True ''catchDEVEL''
       = Some \<lparr>macro_params = None, macro_body = [''catch'', ''('', ''clause'', '')'']\<rparr>"
  by (simp add: try_catch_macros_def define_macro_def)

end
